theory Spec2Isabelle
  imports Complex_Main "HOL-Library.Word" "HOL-Library.Monad_Syntax"
begin

section \<open>Arrays and indexing\<close>

text \<open>
  The notebook works on NumPy arrays: \<open>col\<close> and \<open>row\<close> are one-dimensional \<open>int32\<close>
  arrays, \<open>S\<close> is a one-dimensional \<open>float64\<close> array, \<open>data\<close> and \<open>data_out\<close> are
  two-dimensional \<open>float64\<close> arrays. A one-dimensional array is a list, a two-dimensional
  array is the list of its rows (\<open>shape[0]\<close> is the length of that list). The element type
  is a type variable \<open>'a\<close> carrying only \<open>0\<close>, \<open>+\<close> and \<open>*\<close>: no law of arithmetic is
  assumed by the definitions, and every theorem names in its sort the laws it needs.

  An integer index counts from the end when negative. An index outside the axis has no
  defined result (NumPy raises IndexError, a kernel compiled in nopython mode reads or
  writes outside the array): the model returns \<open>None\<close> and every later step is skipped.
\<close>

type_synonym int32 = "32 word"

definition index :: "nat \<Rightarrow> int \<Rightarrow> nat option" where
  "index n i =
     (let k = (if i < 0 then i + int n else i)
      in if 0 \<le> k \<and> k < int n then Some (nat k) else None)"

definition getitem :: "'a list \<Rightarrow> int \<Rightarrow> 'a option" where
  "getitem xs i = map_option (\<lambda>k. xs ! k) (index (length xs) i)"

definition getitem2 :: "'a list list \<Rightarrow> int \<Rightarrow> int \<Rightarrow> 'a option" where
  "getitem2 a j k = do { r \<leftarrow> getitem a j; getitem r k }"

definition setitem2 :: "'a list list \<Rightarrow> int \<Rightarrow> int \<Rightarrow> 'a \<Rightarrow> 'a list list option" where
  "setitem2 a j k v = do {
     j' \<leftarrow> index (length a) j;
     k' \<leftarrow> index (length (a ! j')) k;
     Some (a[j' := (a ! j')[k' := v]]) }"

definition zeros :: "nat \<Rightarrow> nat \<Rightarrow> 'a::zero list list" where
  "zeros n m = replicate n (replicate m 0)"

text \<open>
  \<open>float64\<close> has two zeros. The type \<open>sreal\<close> is the part of its arithmetic that
  concerns them, without rounding, infinities and NaN: the reals with a second, negative
  zero (\<open>Num 0\<close> is \<open>+0.0\<close>, \<open>NegZero\<close> is \<open>-0.0\<close>), and the rules of IEEE 754 for the
  sign of a zero result: a sum is \<open>-0.0\<close> only when both terms are, a product that is
  zero is negative when exactly one factor is.
\<close>

datatype sreal = NegZero | Num real

definition negative :: "sreal \<Rightarrow> bool" where
  "negative x = (case x of NegZero \<Rightarrow> True | Num r \<Rightarrow> r < 0)"

definition magnitude :: "sreal \<Rightarrow> real" where
  "magnitude x = (case x of NegZero \<Rightarrow> 0 | Num r \<Rightarrow> r)"

instantiation sreal :: "{zero,one,plus,times}"
begin

definition zero_sreal :: sreal where
  "zero_sreal = Num 0"

definition one_sreal :: sreal where
  "one_sreal = Num 1"

definition plus_sreal :: "sreal \<Rightarrow> sreal \<Rightarrow> sreal" where
  "plus_sreal x y =
     (case x of NegZero \<Rightarrow> y
      | Num r \<Rightarrow> (case y of NegZero \<Rightarrow> Num r | Num s \<Rightarrow> Num (r + s)))"

definition times_sreal :: "sreal \<Rightarrow> sreal \<Rightarrow> sreal" where
  "times_sreal x y =
     (if magnitude x * magnitude y = 0
      then (if negative x = negative y then Num 0 else NegZero)
      else Num (magnitude x * magnitude y))"

instance ..

end

section \<open>The kernel\<close>

text \<open>
  A \<open>for\<close> loop over a list of index values, threading the mutated array through the
  iterations; the first failing iteration ends the loop.
\<close>

primrec for_loop :: "'i list \<Rightarrow> ('i \<Rightarrow> 's \<Rightarrow> 's option) \<Rightarrow> 's \<Rightarrow> 's option" where
  "for_loop [] body s = Some s"
| "for_loop (k # ks) body s =
     (case body k s of None \<Rightarrow> None | Some s' \<Rightarrow> for_loop ks body s')"

text \<open>
  The loop body shared by \<open>sparse_dot\<close> and \<open>sparse_dot_pa\<close>:
  \<^verbatim>\<open>data_out[j, row[i]] += data[j, col[i]]*S[i]\<close>
  The target's index is evaluated and the cell read, then the right-hand side is
  evaluated, then the sum is stored in the cell.
\<close>

definition kernel_stmt ::
  "'a::{plus,times} list list \<Rightarrow> int32 list \<Rightarrow> int32 list \<Rightarrow> 'a list \<Rightarrow> nat \<Rightarrow> nat
     \<Rightarrow> 'a list list \<Rightarrow> 'a list list option" where
  "kernel_stmt data col row S j i data_out = do {
     r \<leftarrow> getitem row (int i);
     acc \<leftarrow> getitem2 data_out (int j) (sint r);
     c \<leftarrow> getitem col (int i);
     x \<leftarrow> getitem2 data (int j) (sint c);
     w \<leftarrow> getitem S (int i);
     setitem2 data_out (int j) (sint r) (acc + x * w) }"

text \<open>
  \<^verbatim>\<open>
  def sparse_dot(data_out, data, col, row, S):
      for j in range(data.shape[0]):
          for i in range(S.size):
              data_out[j, row[i]] += data[j, col[i]]*S[i]
  \<close>
  The function mutates \<open>data_out\<close>; the model returns the mutated array.
\<close>

definition sparse_dot ::
  "'a::{plus,times} list list \<Rightarrow> 'a list list \<Rightarrow> int32 list \<Rightarrow> int32 list \<Rightarrow> 'a list
     \<Rightarrow> 'a list list option" where
  "sparse_dot data_out data col row S =
     for_loop [0..<length data]
       (\<lambda>j. for_loop [0..<length S] (\<lambda>i. kernel_stmt data col row S j i)) data_out"

text \<open>
  \<open>sparse_dot_pa\<close> is the same text with \<open>prange\<close> for the outer \<open>range\<close>: the iterations
  \<open>j\<close> are handed to worker threads, every iteration runs its inner loop in program order,
  and the statements of different iterations interleave in an order the program does not
  control. The order is an argument of the model: a schedule lists the executed statement
  instances \<open>(j, i)\<close> in the order in which they take effect. \<open>prange_schedule n m\<close> holds
  for the schedules \<open>prange\<close> can produce on \<open>n\<close> rows and \<open>m\<close> nonzeros: every iteration
  \<open>j < n\<close> occurs with its statements \<open>0, \<dots>, m - 1\<close> in ascending order, and nothing
  else occurs.
\<close>

type_synonym schedule = "(nat \<times> nat) list"

definition steps_of :: "nat \<Rightarrow> schedule \<Rightarrow> nat list" where
  "steps_of j sched = map snd (filter (\<lambda>p. fst p = j) sched)"

definition prange_schedule :: "nat \<Rightarrow> nat \<Rightarrow> schedule \<Rightarrow> bool" where
  "prange_schedule n m sched \<longleftrightarrow>
     list_all (\<lambda>p. fst p < n) sched \<and> list_all (\<lambda>j. steps_of j sched = [0..<m]) [0..<n]"

definition sparse_dot_pa ::
  "schedule \<Rightarrow> 'a::{plus,times} list list \<Rightarrow> 'a list list \<Rightarrow> int32 list \<Rightarrow> int32 list
     \<Rightarrow> 'a list \<Rightarrow> 'a list list option" where
  "sparse_dot_pa sched data_out data col row S =
     for_loop sched (\<lambda>p. kernel_stmt data col row S (fst p) (snd p)) data_out"

section \<open>The operator and apply\<close>

text \<open>
  The notebook keeps the operator in the globals \<open>col\<close>, \<open>row\<close> and \<open>S\<close> and writes the
  width of the output grid as the literal 120000, the size that belongs to its weights
  file; the width of the input grid (240000) occurs only as the shape of the test data.
  The model gathers them in a record, so that \<open>apply_A\<close> can be stated for any operator;
  the two widths carry the names the specification gives them. No function of the
  notebook reads \<open>input_width\<close>.
\<close>

record 'a operator =
  op_col :: "int32 list"
  op_row :: "int32 list"
  op_S :: "'a list"
  input_width :: nat
  output_width :: nat

text \<open>
  Loading the operator.
  \<^verbatim>\<open>
  ds = xr.open_dataset("weights.nc")
  n_s = ds.dims['n_s']
  col = ds['col'].values - 1
  row = ds['row'].values - 1
  S = ds['S'].values
  \<close>
  The data set is a record of the arrays it holds; \<open>col\<close> and \<open>row\<close> are \<open>int32\<close> (the
  signature of \<open>sparse_dot_guvec\<close> says so), and subtracting 1 from an \<open>int32\<close> array
  wraps around. The two widths are not in the file; they are arguments.
\<close>

record 'a dataset =
  n_s :: nat
  ds_col :: "int32 list"
  ds_row :: "int32 list"
  ds_S :: "'a list"

definition load_operator :: "'a dataset \<Rightarrow> nat \<Rightarrow> nat \<Rightarrow> 'a operator" where
  "load_operator ds n_in n_out =
     \<lparr>op_col = map (\<lambda>c. c - 1) (ds_col ds), op_row = map (\<lambda>r. r - 1) (ds_row ds),
      op_S = ds_S ds, input_width = n_in, output_width = n_out\<rparr>"

text \<open>
  \<^verbatim>\<open>
  def apply_A(data, parallel=False):
      if parallel:
          func = sparse_dot_pa
      else:
          func = sparse_dot
      data_out = np.zeros([data.shape[0], 120000])
      func(data_out, data, col, row, S)    # use global col, row, S here
      return data_out
  \<close>
  The argument \<open>sched\<close> is the schedule of the worker threads; only the parallel
  branch uses it.
\<close>

definition apply_A ::
  "'a::{zero,plus,times} operator \<Rightarrow> schedule \<Rightarrow> 'a list list \<Rightarrow> bool \<Rightarrow> 'a list list option" where
  "apply_A A sched data parallel =
     (let func = (if parallel then sparse_dot_pa sched else sparse_dot);
          data_out = zeros (length data) (output_width A)
      in func data_out data (op_col A) (op_row A) (op_S A))"

section \<open>Chunked execution\<close>

text \<open>
  \<^verbatim>\<open>
  data_dask = da.from_array(data, chunks=(50, 240000))
  dr_out_pa = xr.apply_ufunc(apply_A, dr_dask, input_core_dims=[['grid_dims']],
                             output_core_dims=[['out_grid']], dask='parallelized', ...)
  \<close>
  The chunked array is the list of its blocks, each block a run of consecutive rows with
  all their columns (the core dimension is not split). \<open>apply_ufunc\<close> with
  \<open>dask='parallelized'\<close> calls the function once on every block and concatenates the
  results along the row axis in the order of the blocks; a failing call fails the whole
  computation. The blocks may be computed in any order and concurrently: every call has
  its own input block and allocates its own output.
\<close>

definition apply_ufunc ::
  "('a list list \<Rightarrow> 'b list list option) \<Rightarrow> 'a list list list \<Rightarrow> 'b list list option" where
  "apply_ufunc func blocks = map_option concat (those (map func blocks))"

section \<open>One row at a time\<close>

text \<open>
  The statement restricted to the row it touches,
  \<^verbatim>\<open>data_out[row[i]] += data[col[i]]*S[i]\<close>
  (the body of \<open>sparse_dot_guvec\<close>, which receives one row of \<open>data\<close> and one row of
  \<open>data_out\<close>), and a loop of such statements over a list of nonzero indexes.
\<close>

definition row_stmt ::
  "'a::{plus,times} list \<Rightarrow> int32 list \<Rightarrow> int32 list \<Rightarrow> 'a list \<Rightarrow> nat \<Rightarrow> 'a list
     \<Rightarrow> 'a list option" where
  "row_stmt data col row S i data_out = do {
     r \<leftarrow> getitem row (int i);
     k \<leftarrow> index (length data_out) (sint r);
     c \<leftarrow> getitem col (int i);
     x \<leftarrow> getitem data (sint c);
     w \<leftarrow> getitem S (int i);
     Some (data_out[k := data_out ! k + x * w]) }"

definition row_loop ::
  "nat list \<Rightarrow> 'a::{plus,times} list \<Rightarrow> int32 list \<Rightarrow> int32 list \<Rightarrow> 'a list \<Rightarrow> 'a list
     \<Rightarrow> 'a list option" where
  "row_loop ks data col row S data_out = for_loop ks (row_stmt data col row S) data_out"

text \<open>
  The statement instances of the two nested \<open>range\<close> loops of \<open>sparse_dot\<close>, in the
  order in which the serial kernel executes them.
\<close>

definition serial_steps :: "nat \<Rightarrow> nat \<Rightarrow> schedule" where
  "serial_steps n m = concat (map (\<lambda>j. map (Pair j) [0..<m]) [0..<n])"

section \<open>The vectorised kernel\<close>

text \<open>
  \<^verbatim>\<open>
  shape_arr = np.arange(120000)

  @guvectorize(["void(float64[:], int32[:], int32[:], float64[:], int64[:], float64[:])"],
               "(n),(k),(k),(k),(m)->(m)", target='parallel')
  def sparse_dot_guvec(data, col, row, S, shape_arr, data_out):
      for i in range(S.size):
          data_out[row[i]] += data[col[i]]*S[i]

  out_guvec = sparse_dot_guvec(data, col, row, S, shape_arr)
  \<close>
  The kernel receives one row of \<open>data\<close> and one row of the output. The call passes no
  output array: the generalised ufunc allocates one of shape
  \<open>(data.shape[0], len(shape_arr))\<close> and runs the kernel on every pair of rows. Neither
  the allocation nor the kernel writes zeros, so what the array holds before the kernel
  runs is whatever the allocated memory held; that content is the argument \<open>alloc\<close> of
  the model. The layout requires \<open>col\<close>, \<open>row\<close> and \<open>S\<close> to have the same length.
\<close>

type_synonym int64 = "64 word"

definition sparse_dot_guvec ::
  "'a::{plus,times} list \<Rightarrow> int32 list \<Rightarrow> int32 list \<Rightarrow> 'a list \<Rightarrow> int64 list \<Rightarrow> 'a list
     \<Rightarrow> 'a list option" where
  "sparse_dot_guvec data col row S shape_arr data_out =
     for_loop [0..<length S] (\<lambda>i. row_stmt data col row S i) data_out"

definition out_guvec ::
  "'a::{plus,times} list list \<Rightarrow> 'a list list \<Rightarrow> int32 list \<Rightarrow> int32 list \<Rightarrow> 'a list
     \<Rightarrow> int64 list \<Rightarrow> 'a list list option" where
  "out_guvec alloc data col row S shape_arr =
     (if length col = length S \<and> length row = length S
      then those (map (\<lambda>j. sparse_dot_guvec (data ! j) col row S shape_arr (alloc ! j))
                    [0..<length data])
      else None)"

section \<open>The specification's vocabulary\<close>

text \<open>
  The invariant the specification states for an operator: the three arrays have equal
  length and every index lies inside its axis. The notebook never checks it.
\<close>

definition valid_operator :: "'a operator \<Rightarrow> bool" where
  "valid_operator A \<longleftrightarrow>
     length (op_col A) = length (op_S A) \<and> length (op_row A) = length (op_S A) \<and>
     list_all (\<lambda>c. 0 \<le> sint c \<and> sint c < int (input_width A)) (op_col A) \<and>
     list_all (\<lambda>r. 0 \<le> sint r \<and> sint r < int (output_width A)) (op_row A)"

text \<open>A two-dimensional array of shape \<open>(n, m)\<close>.\<close>

definition has_shape :: "'a list list \<Rightarrow> nat \<Rightarrow> nat \<Rightarrow> bool" where
  "has_shape a n m \<longleftrightarrow> length a = n \<and> list_all (\<lambda>r. length r = m) a"

text \<open>
  The products \<open>data[col[i]] * S[i]\<close> of one batch row that go to destination \<open>r\<close>, for the
  nonzero indexes \<open>i\<close> of \<open>ks\<close> with \<open>row[i] = r\<close>, in the order of \<open>ks\<close>.
\<close>

definition contributions ::
  "'a::times list \<Rightarrow> int32 list \<Rightarrow> int32 list \<Rightarrow> 'a list \<Rightarrow> nat list \<Rightarrow> nat \<Rightarrow> 'a list" where
  "contributions data col row S ks r =
     map (\<lambda>i. data ! nat (sint (col ! i)) * S ! i) (filter (\<lambda>i. sint (row ! i) = int r) ks)"

text \<open>
  The linear combination \<open>a * x + b * y\<close> of two arrays of the same shape, cell by cell
  (what NumPy computes for \<open>a*x + b*y\<close>).
\<close>

definition lincomb :: "'a::{plus,times} \<Rightarrow> 'a list list \<Rightarrow> 'a \<Rightarrow> 'a list list \<Rightarrow> 'a list list" where
  "lincomb a x b y = map2 (map2 (\<lambda>u v. a * u + b * v)) x y"

text \<open>Every destination \<open>0, \<dots>, output_width - 1\<close> occurs in \<open>row\<close>.\<close>

definition covers_every_row :: "'a operator \<Rightarrow> bool" where
  "covers_every_row A \<longleftrightarrow>
     list_all (\<lambda>r. int r \<in> set (map sint (op_row A))) [0..<output_width A]"

text \<open>
  An identity-like permutation, as the specification describes it: equal widths,
  \<open>row[i] = col[i]\<close> and \<open>weight[i] = 1\<close> for every \<open>i\<close>, and \<open>row\<close> a permutation of the
  destinations, that is, no destination twice and every destination once.
\<close>

definition identity_like :: "'a::one operator \<Rightarrow> bool" where
  "identity_like A \<longleftrightarrow>
     input_width A = output_width A \<and> op_row A = op_col A \<and>
     list_all (\<lambda>w. w = 1) (op_S A) \<and> distinct (op_row A) \<and> covers_every_row A"

text \<open>
  The concrete scenario of the specification: three nonzeros, two of them with the same
  destination, and a batch of one row.
\<close>

definition scenario_operator :: "real operator" where
  "scenario_operator =
     \<lparr>op_col = [0, 1, 1], op_row = [0, 0, 1], op_S = [1, 2, 3],
      input_width = 2, output_width = 2\<rparr>"

definition scenario_batch :: "real list list" where
  "scenario_batch = [[1, 1]]"

section \<open>Basic facts\<close>

lemma index_nat: "index n (int i) = (if i < n then Some i else None)"
  by (simp add: index_def)

lemma getitem_nat: "getitem xs (int i) = (if i < length xs then Some (xs ! i) else None)"
  by (simp add: getitem_def index_nat)

lemma getitem2_nat:
  "getitem2 a (int j) k = (if j < length a then getitem (a ! j) k else None)"
  by (simp add: getitem2_def getitem_nat)

lemma setitem2_nat:
  "setitem2 a (int j) k v =
     (if j < length a then map_option (\<lambda>k'. a[j := (a ! j)[k' := v]]) (index (length (a ! j)) k)
      else None)"
  by (cases "index (length (a ! j)) k") (simp_all add: setitem2_def index_nat)

lemma kernel_stmt_row:
  "kernel_stmt data col row S j i out =
     (if j < length out \<and> j < length data
      then map_option (\<lambda>r. out[j := r]) (row_stmt (data ! j) col row S i (out ! j))
      else None)"
proof (cases "getitem row (int i)")
  case None
  then show ?thesis by (simp add: kernel_stmt_def row_stmt_def)
next
  case r: (Some r)
  show ?thesis
  proof (cases "getitem col (int i)")
    case None
    with r show ?thesis by (simp add: kernel_stmt_def row_stmt_def)
  next
    case c: (Some c)
    show ?thesis
    proof (cases "j < length out \<and> j < length data")
      case False
      with r c show ?thesis
        by (auto simp: kernel_stmt_def getitem2_nat split: Option.bind_splits)
    next
      case True
      with r c show ?thesis
        by (cases "index (length (out ! j)) (sint r)"; cases "getitem (data ! j) (sint c)";
            cases "getitem S (int i)")
           (simp_all add: kernel_stmt_def row_stmt_def getitem2_nat setitem2_nat getitem_def [of "out ! j"])
    qed
  qed
qed

lemma index_nonneg: "0 \<le> i \<Longrightarrow> i < int n \<Longrightarrow> index n i = Some (nat i)"
  by (simp add: index_def)

lemma for_loop_append:
  "for_loop (xs @ ys) body s =
     (case for_loop xs body s of None \<Rightarrow> None | Some s' \<Rightarrow> for_loop ys body s')"
  by (induction xs arbitrary: s) (auto split: option.splits)

lemma for_loop_map: "for_loop (map f xs) body s = for_loop xs (\<lambda>x. body (f x)) s"
  by (induction xs arbitrary: s) (auto split: option.splits)

lemma for_loop_nested:
  "for_loop js (\<lambda>j. for_loop ks (body j)) s =
     for_loop (concat (map (\<lambda>j. map (Pair j) ks) js)) (\<lambda>p. body (fst p) (snd p)) s"
  by (induction js arbitrary: s) (auto simp: for_loop_append for_loop_map split: option.splits)

lemma those_map_None: "x \<in> set xs \<Longrightarrow> f x = None \<Longrightarrow> those (map f xs) = None"
  by (induction xs) (auto split: option.splits)

lemma those_map_Some: "those (map Some xs) = Some xs"
  by (induction xs) auto

lemma those_append:
  "those (xs @ ys) =
     (case those xs of None \<Rightarrow> None
      | Some us \<Rightarrow> (case those ys of None \<Rightarrow> None | Some vs \<Rightarrow> Some (us @ vs)))"
  by (induction xs) (auto split: option.splits)

lemma map_nth_f: "map (\<lambda>j. f (xs ! j)) [0..<length xs] = map f xs"
  by (rule nth_equalityI) simp_all

lemma steps_of_Cons:
  "steps_of j (p # sched) = (if fst p = j then snd p # steps_of j sched else steps_of j sched)"
  by (simp add: steps_of_def)

lemma row_loop_Cons:
  "row_loop (k # ks) d col row S out =
     (case row_stmt d col row S k out of None \<Rightarrow> None | Some out' \<Rightarrow> row_loop ks d col row S out')"
  unfolding row_loop_def by simp

lemma row_loop_Nil: "row_loop [] d col row S out = Some out"
  by (simp add: row_loop_def)

lemma steps_by_rows:
  "for_loop steps (\<lambda>p. kernel_stmt data col row S (fst p) (snd p)) out =
     (if \<forall>p\<in>set steps. fst p < length out \<and> fst p < length data
      then those (map (\<lambda>j. row_loop (steps_of j steps) (data ! j) col row S (out ! j))
                   [0..<length out])
      else None)"
proof (induction steps arbitrary: out)
  case Nil
  have "those (map (\<lambda>j. Some (out ! j)) [0..<length out]) = Some out"
    by (simp only: map_nth_f those_map_Some)
  then show ?case
    by (simp add: steps_of_def row_loop_Nil)
next
  case (Cons p steps)
  obtain j i where p: "p = (j, i)" by (cases p)
  let ?rows = "\<lambda>st o'. those (map (\<lambda>j'. row_loop (steps_of j' st) (data ! j') col row S (o' ! j'))
                [0..<length out])"
  show ?case
  proof (cases "j < length out \<and> j < length data")
    case False
    then show ?thesis by (auto simp: p kernel_stmt_row)
  next
    case inr: True
    show ?thesis
    proof (cases "row_stmt (data ! j) col row S i (out ! j)")
      case None
      have "?rows (p # steps) out = None"
        by (rule those_map_None [where x = j])
           (use inr None in \<open>simp_all add: p steps_of_Cons row_loop_Cons\<close>)
      with None inr show ?thesis by (simp add: p kernel_stmt_row)
    next
      case (Some r)
      have "\<And>j'. j' < length out \<Longrightarrow>
              row_loop (steps_of j' steps) (data ! j') col row S (out[j := r] ! j') =
              row_loop (steps_of j' (p # steps)) (data ! j') col row S (out ! j')"
        using Some by (auto simp: p steps_of_Cons row_loop_Cons nth_list_update)
      then have eq: "?rows steps (out[j := r]) = ?rows (p # steps) out"
        by (intro arg_cong [where f = those] map_cong) simp_all
      have "for_loop (p # steps) (\<lambda>p. kernel_stmt data col row S (fst p) (snd p)) out =
            for_loop steps (\<lambda>p. kernel_stmt data col row S (fst p) (snd p)) (out[j := r])"
        using Some inr by (simp add: p kernel_stmt_row)
      also have "\<dots> = (if \<forall>p\<in>set steps. fst p < length out \<and> fst p < length data
                       then ?rows steps (out[j := r]) else None)"
        by (simp add: Cons.IH)
      also have "\<dots> = (if \<forall>p\<in>set (p # steps). fst p < length out \<and> fst p < length data
                       then ?rows (p # steps) out else None)"
        using inr by (simp add: eq p)
      finally show ?thesis .
    qed
  qed
qed

lemma steps_of_append: "steps_of j (xs @ ys) = steps_of j xs @ steps_of j ys"
  by (simp add: steps_of_def)

lemma steps_of_row: "steps_of j (map (Pair j') ks) = (if j' = j then ks else [])"
  by (induction ks) (auto simp: steps_of_def)

lemma steps_of_Nil: "steps_of j [] = []"
  by (simp add: steps_of_def)

lemma serial_steps_Suc: "serial_steps (Suc n) m = serial_steps n m @ map (Pair n) [0..<m]"
  by (simp add: serial_steps_def)

lemma steps_of_serial: "steps_of j (serial_steps n m) = (if j < n then [0..<m] else [])"
proof (induction n)
  case 0
  show ?case by (simp add: serial_steps_def steps_of_Nil)
next
  case (Suc n)
  then show ?case
    by (simp add: serial_steps_Suc steps_of_append steps_of_row)
qed

lemma fst_serial_steps: "p \<in> set (serial_steps n m) \<Longrightarrow> fst p < n"
  by (auto simp: serial_steps_def)

lemma serial_is_prange_schedule: "prange_schedule n m (serial_steps n m)"
  by (auto simp: prange_schedule_def list_all_iff steps_of_serial dest: fst_serial_steps)

lemma steps_of_empty_iff: "steps_of j sched = [] \<longleftrightarrow> j \<notin> fst ` set sched"
  by (induction sched) (auto simp: steps_of_def)

lemma prange_schedule_steps_of:
  assumes "prange_schedule n m sched"
  shows "steps_of j sched = (if j < n then [0..<m] else [])"
proof (cases "j < n")
  case True
  with assms show ?thesis by (simp add: prange_schedule_def list_all_iff)
next
  case False
  with assms have "j \<notin> fst ` set sched"
    by (auto simp: prange_schedule_def list_all_iff)
  with False show ?thesis by (simp add: steps_of_empty_iff)
qed

lemma steps_cong:
  assumes "\<And>j. steps_of j s1 = steps_of j s2"
  shows "for_loop s1 (\<lambda>p. kernel_stmt data col row S (fst p) (snd p)) out =
         for_loop s2 (\<lambda>p. kernel_stmt data col row S (fst p) (snd p)) out"
proof -
  have "j \<in> fst ` set s1 \<longleftrightarrow> j \<in> fst ` set s2" for j
  proof -
    have "j \<in> fst ` set s1 \<longleftrightarrow> steps_of j s1 \<noteq> []"
      by (simp add: steps_of_empty_iff)
    also have "\<dots> \<longleftrightarrow> steps_of j s2 \<noteq> []"
      by (simp only: assms)
    also have "\<dots> \<longleftrightarrow> j \<in> fst ` set s2"
      by (simp add: steps_of_empty_iff)
    finally show ?thesis .
  qed
  then have "fst ` set s1 = fst ` set s2"
    by (rule set_eqI)
  then have "(\<forall>j\<in>fst ` set s1. j < length out \<and> j < length data) \<longleftrightarrow>
             (\<forall>j\<in>fst ` set s2. j < length out \<and> j < length data)"
    by simp
  then have "(\<forall>p\<in>set s1. fst p < length out \<and> fst p < length data) \<longleftrightarrow>
             (\<forall>p\<in>set s2. fst p < length out \<and> fst p < length data)"
    by (simp only: ball_simps)
  then show ?thesis by (simp add: steps_by_rows assms)
qed

lemma sparse_dot_steps:
  "sparse_dot out data col row S =
     for_loop (serial_steps (length data) (length S))
       (\<lambda>p. kernel_stmt data col row S (fst p) (snd p)) out"
  by (simp add: sparse_dot_def serial_steps_def for_loop_nested)

lemma sparse_dot_pa_serial:
  assumes "prange_schedule (length data) (length S) sched"
  shows "sparse_dot_pa sched out data col row S = sparse_dot out data col row S"
  unfolding sparse_dot_pa_def sparse_dot_steps
  by (rule steps_cong) (simp add: prange_schedule_steps_of [OF assms] steps_of_serial)

lemma sparse_dot_rows:
  assumes "length out = length data"
  shows "sparse_dot out data col row S =
         those (map (\<lambda>j. row_loop [0..<length S] (data ! j) col row S (out ! j))
                  [0..<length data])"
proof -
  have "\<forall>p\<in>set (serial_steps (length data) (length S)).
          fst p < length out \<and> fst p < length data"
    using assms fst_serial_steps by auto
  moreover have "map (\<lambda>j. row_loop (steps_of j (serial_steps (length data) (length S)))
                         (data ! j) col row S (out ! j)) [0..<length out] =
                 map (\<lambda>j. row_loop [0..<length S] (data ! j) col row S (out ! j))
                   [0..<length data]"
    by (rule map_cong) (simp_all add: assms steps_of_serial)
  ultimately show ?thesis
    unfolding sparse_dot_steps steps_by_rows by simp
qed

lemma apply_A_rows:
  "apply_A A sched data False =
     those (map (\<lambda>d. row_loop [0..<length (op_S A)] d (op_col A) (op_row A) (op_S A)
                        (replicate (output_width A) 0)) data)"
proof -
  have "map (\<lambda>j. row_loop [0..<length (op_S A)] (data ! j) (op_col A) (op_row A) (op_S A)
                   (zeros (length data) (output_width A) ! j)) [0..<length data] =
        map (\<lambda>j. row_loop [0..<length (op_S A)] (data ! j) (op_col A) (op_row A) (op_S A)
                   (replicate (output_width A) 0)) [0..<length data]"
    by (rule map_cong) (simp_all add: zeros_def)
  then have "those (map (\<lambda>j. row_loop [0..<length (op_S A)] (data ! j) (op_col A) (op_row A) (op_S A)
                   (zeros (length data) (output_width A) ! j)) [0..<length data]) =
        those (map (\<lambda>j. row_loop [0..<length (op_S A)] (data ! j) (op_col A) (op_row A) (op_S A)
                   (replicate (output_width A) 0)) [0..<length data])"
    by (rule arg_cong)
  moreover have "length (zeros (length data) (output_width A) :: 'a list list) = length data"
    by (simp add: zeros_def)
  ultimately have "apply_A A sched data False =
        those (map (\<lambda>j. row_loop [0..<length (op_S A)] (data ! j) (op_col A) (op_row A) (op_S A)
                          (replicate (output_width A) 0)) [0..<length data])"
    by (simp add: apply_A_def sparse_dot_rows)
  then show ?thesis
    using map_nth_f [of "\<lambda>d. row_loop [0..<length (op_S A)] d (op_col A) (op_row A) (op_S A)
                               (replicate (output_width A) 0)" data]
    by simp
qed

lemma apply_A_parallel:
  "prange_schedule (length data) (length (op_S A)) sched \<Longrightarrow>
     apply_A A sched data True = apply_A A sched' data False"
  by (simp add: apply_A_def sparse_dot_pa_serial)

lemma those_map_eq_Some:
  "(\<And>x. x \<in> set xs \<Longrightarrow> f x = Some (g x)) \<Longrightarrow> those (map f xs) = Some (map g xs)"
  by (induction xs) simp_all

lemma contributions_Nil: "contributions d col row S [] r = []"
  by (simp add: contributions_def)

lemma contributions_Cons:
  "contributions d col row S (k # ks) r =
     (if sint (row ! k) = int r
      then (d ! nat (sint (col ! k)) * S ! k) # contributions d col row S ks r
      else contributions d col row S ks r)"
  by (simp add: contributions_def)

lemma row_stmt_valid:
  assumes "k < length row" "k < length col" "k < length S"
    and "0 \<le> sint (row ! k)" "sint (row ! k) < int (length out)"
    and "0 \<le> sint (col ! k)" "sint (col ! k) < int (length d)"
  shows "row_stmt d col row S k out =
         Some (out[nat (sint (row ! k)) :=
                 out ! nat (sint (row ! k)) + d ! nat (sint (col ! k)) * S ! k])"
  using assms by (simp add: row_stmt_def getitem_nat getitem_def index_nonneg)

lemma row_loop_cells:
  assumes "\<And>k. k \<in> set ks \<Longrightarrow> k < length row \<and> k < length col \<and> k < length S \<and>
             0 \<le> sint (row ! k) \<and> sint (row ! k) < int (length out) \<and>
             0 \<le> sint (col ! k) \<and> sint (col ! k) < int (length d)"
  shows "row_loop ks d col row S out =
         Some (map (\<lambda>r. foldl (+) (out ! r) (contributions d col row S ks r)) [0..<length out])"
  using assms
proof (induction ks arbitrary: out)
  case Nil
  show ?case by (simp add: row_loop_Nil contributions_Nil map_nth)
next
  case (Cons k ks)
  let ?r = "nat (sint (row ! k))"
  let ?x = "d ! nat (sint (col ! k)) * S ! k"
  let ?out = "out[?r := out ! ?r + ?x]"
  have k: "k < length row \<and> k < length col \<and> k < length S \<and>
           0 \<le> sint (row ! k) \<and> sint (row ! k) < int (length out) \<and>
           0 \<le> sint (col ! k) \<and> sint (col ! k) < int (length d)"
    using Cons.prems [of k] by simp
  then have stmt: "row_stmt d col row S k out = Some ?out"
    by (simp add: row_stmt_valid)
  have "row_loop ks d col row S ?out =
        Some (map (\<lambda>r. foldl (+) (?out ! r) (contributions d col row S ks r)) [0..<length ?out])"
    by (rule Cons.IH) (use Cons.prems in simp)
  moreover have "map (\<lambda>r. foldl (+) (?out ! r) (contributions d col row S ks r)) [0..<length ?out] =
                 map (\<lambda>r. foldl (+) (out ! r) (contributions d col row S (k # ks) r)) [0..<length out]"
  proof (rule map_cong)
    show "[0..<length ?out] = [0..<length out]" by simp
  next
    fix r assume "r \<in> set [0..<length out]"
    then have r: "r < length out" by simp
    show "foldl (+) (?out ! r) (contributions d col row S ks r) =
          foldl (+) (out ! r) (contributions d col row S (k # ks) r)"
    proof (cases "sint (row ! k) = int r")
      case True
      then have "?r = r" by simp
      with True r show ?thesis by (simp add: contributions_Cons)
    next
      case False
      with k have "?r \<noteq> r" by auto
      with False show ?thesis by (simp add: contributions_Cons)
    qed
  qed
  ultimately show ?case by (simp add: row_loop_Cons stmt)
qed

lemma valid_operator_index:
  assumes "valid_operator A" "k < length (op_S A)"
  shows "k < length (op_row A) \<and> k < length (op_col A) \<and>
         0 \<le> sint (op_row A ! k) \<and> sint (op_row A ! k) < int (output_width A) \<and>
         0 \<le> sint (op_col A ! k) \<and> sint (op_col A ! k) < int (input_width A)"
  using assms by (simp add: valid_operator_def list_all_length)

lemma has_shape_nth: "has_shape a n m \<Longrightarrow> j < n \<Longrightarrow> length (a ! j) = m"
  by (simp add: has_shape_def list_all_length)

lemma has_shape_length: "has_shape a n m \<Longrightarrow> length a = n"
  by (simp add: has_shape_def)

lemma sparse_dot_cells:
  assumes A: "valid_operator A"
    and data: "has_shape data n (input_width A)"
    and out: "has_shape data_out n (output_width A)"
  shows "sparse_dot data_out data (op_col A) (op_row A) (op_S A) =
         Some (map (\<lambda>j. map (\<lambda>r. foldl (+) (data_out ! j ! r)
                        (contributions (data ! j) (op_col A) (op_row A) (op_S A)
                           [0..<length (op_S A)] r)) [0..<output_width A]) [0..<n])"
proof -
  have len: "length data_out = length data" "length data = n"
    using data out by (simp_all add: has_shape_def)
  have "row_loop [0..<length (op_S A)] (data ! j) (op_col A) (op_row A) (op_S A) (data_out ! j) =
        Some (map (\<lambda>r. foldl (+) (data_out ! j ! r)
                 (contributions (data ! j) (op_col A) (op_row A) (op_S A)
                    [0..<length (op_S A)] r)) [0..<output_width A])"
    if "j \<in> set [0..<n]" for j
  proof -
    from that have j: "j < n" by simp
    have "length (data ! j) = input_width A" "length (data_out ! j) = output_width A"
      using has_shape_nth [OF data j] has_shape_nth [OF out j] by simp_all
    then show ?thesis
      using row_loop_cells [of "[0..<length (op_S A)]" "op_row A" "op_col A" "op_S A"
          "data_out ! j" "data ! j"] valid_operator_index [OF A]
      by simp
  qed
  then show ?thesis
    by (simp only: sparse_dot_rows [OF len(1)] len(2) those_map_eq_Some)
qed

lemma apply_A_serial_sched: "apply_A A sched data False = apply_A A [] data False"
  by (simp add: apply_A_def)

lemma apply_A_steps:
  "apply_A A sched data False =
     for_loop (serial_steps (length data) (length (op_S A)))
       (\<lambda>p. kernel_stmt data (op_col A) (op_row A) (op_S A) (fst p) (snd p))
       (zeros (length data) (output_width A))"
  by (simp add: apply_A_def sparse_dot_steps)

lemma has_shape_zeros: "has_shape (zeros n m) n m"
  by (simp add: has_shape_def zeros_def list_all_length)

lemma has_shape_map:
  "has_shape (map (\<lambda>j. map (f j) [0..<m]) [0..<n]) n m"
  by (simp add: has_shape_def list_all_length)

lemma foldl_add_sum_list: "foldl (+) (a :: 'a::monoid_add) xs = a + sum_list xs"
  by (induction xs arbitrary: a) (simp_all add: add.assoc)

lemma getitem_in_set: "getitem xs (int i) = Some x \<Longrightarrow> x \<in> set xs"
  by (auto simp: getitem_nat split: if_splits)

lemma kernel_stmt_data_cong:
  assumes "has_shape batch1 n m" "has_shape batch2 n m"
    and "\<forall>j<n. \<forall>c\<in>set col. \<forall>k. index m (sint c) = Some k \<longrightarrow> batch1 ! j ! k = batch2 ! j ! k"
  shows "kernel_stmt batch1 col row S j i out = kernel_stmt batch2 col row S j i out"
proof (cases "j < n")
  case False
  with assms(1,2) show ?thesis
    by (simp add: kernel_stmt_row has_shape_def)
next
  case j: True
  have len: "length batch1 = n" "length batch2 = n"
    "length (batch1 ! j) = m" "length (batch2 ! j) = m"
    using assms(1,2) j by (simp_all add: has_shape_length has_shape_nth)
  have "getitem2 batch1 (int j) (sint c) = getitem2 batch2 (int j) (sint c)"
    if "getitem col (int i) = Some c" for c
  proof -
    from that have "c \<in> set col" by (rule getitem_in_set)
    with assms(3) j have "\<forall>k. index m (sint c) = Some k \<longrightarrow> batch1 ! j ! k = batch2 ! j ! k"
      by blast
    then show ?thesis
      by (cases "index m (sint c)") (simp_all add: getitem2_nat getitem_def len j)
  qed
  then show ?thesis
    unfolding kernel_stmt_def
    by (cases "getitem row (int i)"; cases "getitem col (int i)") simp_all
qed

lemma those_map_concat:
  "those (map f (concat blocks)) =
     map_option concat (those (map (\<lambda>block. those (map f block)) blocks))"
proof (induction blocks)
  case Nil
  show ?case by simp
next
  case (Cons b bs)
  show ?case
  proof (cases "those (map f b)")
    case None
    then show ?thesis by (simp add: those_append)
  next
    case (Some us)
    then show ?thesis
      by (cases "those (map (\<lambda>block. those (map f block)) bs)")
         (simp_all add: those_append Cons.IH)
  qed
qed

lemma those_map_nth:
  "those (map f xs) = Some ys \<Longrightarrow> length ys = length xs \<and> (\<forall>j<length xs. f (xs ! j) = Some (ys ! j))"
proof (induction xs arbitrary: ys)
  case Nil
  then show ?case by simp
next
  case (Cons x xs)
  from Cons.prems obtain y zs where y: "f x = Some y" and zs: "those (map f xs) = Some zs"
    and ys: "ys = y # zs"
    by (auto split: option.splits)
  from Cons.IH [OF zs] y ys show ?case
    by (auto simp: nth_Cons split: nat.splits)
qed

lemma apply_A_chunks:
  "apply_ufunc (\<lambda>block. apply_A A sched block False) blocks =
     apply_A A sched (concat blocks) False"
  by (simp add: apply_ufunc_def apply_A_rows those_map_concat)

lemma apply_A_row_position:
  assumes "apply_A A sched data False = Some out"
  shows "length out = length data \<and>
         (\<forall>j<length data. apply_A A sched [data ! j] False = Some [out ! j])"
  using those_map_nth [OF assms [unfolded apply_A_rows]] by (simp add: apply_A_rows)

lemma has_shape_lincomb:
  "has_shape x n m \<Longrightarrow> has_shape y n m \<Longrightarrow> has_shape (lincomb a x b y) n m"
  by (simp add: has_shape_def lincomb_def list_all_length)

lemma lincomb_nth:
  assumes "has_shape x n m" "has_shape y n m" "j < n" "k < m"
  shows "lincomb a x b y ! j ! k = a * x ! j ! k + b * y ! j ! k"
  using assms by (simp add: has_shape_def lincomb_def list_all_length)

lemma sum_list_lincomb:
  fixes a b :: "'a::semiring_0"
  shows "(\<Sum>i\<leftarrow>ks. (a * f i + b * g i) * w i) =
         a * (\<Sum>i\<leftarrow>ks. f i * w i) + b * (\<Sum>i\<leftarrow>ks. g i * w i)"
  by (induction ks) (simp_all add: algebra_simps)

lemma contributions_lincomb:
  fixes a b :: "'a::semiring_0"
  assumes "valid_operator A" "has_shape x n (input_width A)" "has_shape y n (input_width A)"
    and "j < n"
  shows "foldl (+) 0 (contributions (lincomb a x b y ! j) (op_col A) (op_row A) (op_S A)
                        [0..<length (op_S A)] r) =
         a * foldl (+) 0 (contributions (x ! j) (op_col A) (op_row A) (op_S A)
                            [0..<length (op_S A)] r) +
         b * foldl (+) 0 (contributions (y ! j) (op_col A) (op_row A) (op_S A)
                            [0..<length (op_S A)] r)"
proof -
  let ?ks = "filter (\<lambda>i. sint (op_row A ! i) = int r) [0..<length (op_S A)]"
  have "map (\<lambda>i. lincomb a x b y ! j ! nat (sint (op_col A ! i)) * op_S A ! i) ?ks =
        map (\<lambda>i. (a * x ! j ! nat (sint (op_col A ! i)) + b * y ! j ! nat (sint (op_col A ! i)))
                    * op_S A ! i) ?ks"
  proof (rule map_cong)
    fix i assume "i \<in> set ?ks"
    then have "i < length (op_S A)" by simp
    then have "nat (sint (op_col A ! i)) < input_width A"
      using valid_operator_index [OF assms(1), of i] by auto
    then show "lincomb a x b y ! j ! nat (sint (op_col A ! i)) * op_S A ! i =
               (a * x ! j ! nat (sint (op_col A ! i)) + b * y ! j ! nat (sint (op_col A ! i)))
                 * op_S A ! i"
      by (simp add: lincomb_nth [OF assms(2,3,4)])
  qed simp
  then have eq: "contributions (lincomb a x b y ! j) (op_col A) (op_row A) (op_S A)
                   [0..<length (op_S A)] r =
                 map (\<lambda>i. (a * x ! j ! nat (sint (op_col A ! i)) +
                            b * y ! j ! nat (sint (op_col A ! i))) * op_S A ! i) ?ks"
    unfolding contributions_def .
  show ?thesis
    unfolding eq foldl_add_sum_list
    by (simp add: contributions_def sum_list_lincomb)
qed

lemma apply_A_cells:
  fixes A :: "'a::{zero,plus,times} operator"
  assumes "valid_operator A" and "has_shape batch n (input_width A)"
  shows "apply_A A sched batch False =
         Some (map (\<lambda>j. map (\<lambda>r. foldl (+) 0
                   (contributions (batch ! j) (op_col A) (op_row A) (op_S A)
                      [0..<length (op_S A)] r)) [0..<output_width A]) [0..<n])"
proof -
  have n: "length batch = n"
    using assms(2) by (rule has_shape_length)
  have "map (\<lambda>j. map (\<lambda>r. foldl (+) (zeros n (output_width A) ! j ! r)
                 (contributions (batch ! j) (op_col A) (op_row A) (op_S A)
                    [0..<length (op_S A)] r)) [0..<output_width A]) [0..<n] =
        map (\<lambda>j. map (\<lambda>r. foldl (+) 0
                 (contributions (batch ! j) (op_col A) (op_row A) (op_S A)
                    [0..<length (op_S A)] r)) [0..<output_width A]) [0..<n]"
    by (intro map_cong refl) (simp add: zeros_def)
  then show ?thesis
    using sparse_dot_cells [OF assms has_shape_zeros] by (simp add: apply_A_def n)
qed

lemma filter_upt_unique:
  assumes "i < n" "P i" "\<And>k. k < n \<Longrightarrow> P k \<Longrightarrow> k = i"
  shows "filter P [0..<n] = [i]"
  using assms
proof (induction n)
  case 0
  then show ?case by simp
next
  case (Suc n)
  show ?case
  proof (cases "i = n")
    case True
    have "\<not> P k" if "k < n" for k
    proof
      assume "P k"
      with that have "k = i" by (intro Suc.prems(3)) simp_all
      with that True show False by simp
    qed
    then have "filter P [0..<n] = []"
      by (simp add: filter_empty_conv)
    with True Suc.prems(2) show ?thesis by simp
  next
    case False
    with Suc.prems(1) have i: "i < n" by simp
    have "\<not> P n"
    proof
      assume "P n"
      then have "n = i" by (intro Suc.prems(3)) simp_all
      with False show False by simp
    qed
    moreover have "filter P [0..<n] = [i]"
    proof (rule Suc.IH)
      show "i < n" by (rule i)
      show "P i" by (rule Suc.prems(2))
      show "k = i" if "k < n" "P k" for k
        using that by (intro Suc.prems(3)) simp_all
    qed
    ultimately show ?thesis by simp
  qed
qed

lemma sint_minus_one:
  fixes c :: int32
  assumes "1 \<le> sint c"
  shows "sint (c - 1) = sint c - 1"
proof -
  have "sint c < 2 ^ 31"
    using sint_lt [of c] by simp
  with assms have "signed_take_bit 31 (sint c - 1) = sint c - 1"
    by (intro signed_take_bit_int_eq_self) simp_all
  then show ?thesis
    by (simp add: sint_word_diff)
qed

lemma apply_A_input_width:
  "apply_A (A\<lparr>input_width := w\<rparr>) sched batch parallel = apply_A A sched batch parallel"
  by (simp add: apply_A_def)

lemma identity_cell:
  fixes A :: "'a::{zero,one,plus,times} operator"
  assumes valid: "valid_operator A" and ident: "identity_like A"
    and r: "r < output_width A"
  shows "foldl (+) 0 (contributions d (op_col A) (op_row A) (op_S A) [0..<length (op_S A)] r)
         = 0 + d ! r * 1"
proof -
  have len: "length (op_row A) = length (op_S A)" and rc: "op_col A = op_row A"
    and dist: "distinct (op_row A)" and covers: "covers_every_row A"
    using valid ident by (auto simp: valid_operator_def identity_like_def)
  from covers r have "int r \<in> set (map sint (op_row A))"
    by (simp add: covers_every_row_def list_all_iff)
  then obtain i where i: "i < length (op_S A)" and ri: "sint (op_row A ! i) = int r"
    by (auto simp: in_set_conv_nth len)
  have uniq: "k = i" if "k < length (op_S A)" "sint (op_row A ! k) = int r" for k
  proof -
    from that ri have "sint (op_row A ! k) = sint (op_row A ! i)"
      by simp
    then have "op_row A ! k = op_row A ! i"
      by (rule signed_word_eqI)
    with dist that(1) i show ?thesis
      by (simp add: nth_eq_iff_index_eq len)
  qed
  have only: "filter (\<lambda>k. sint (op_row A ! k) = int r) [0..<length (op_S A)] = [i]"
    by (rule filter_upt_unique [where P = "\<lambda>k. sint (op_row A ! k) = int r", OF i ri uniq])
  have one: "op_S A ! i = 1"
    using ident i by (simp add: identity_like_def list_all_length)
  have "nat (sint (op_row A ! i)) = r"
    using ri by simp
  then show ?thesis
    by (simp add: contributions_def rc only one)
qed

lemma out_guvec_sparse_dot:
  assumes "length col = length S" "length row = length S" "length alloc = length data"
  shows "out_guvec alloc data col row S shape_arr = sparse_dot alloc data col row S"
  using assms by (simp add: out_guvec_def sparse_dot_guvec_def sparse_dot_rows row_loop_def)

lemma out_guvec_zeros:
  assumes "length (op_col A) = length (op_S A)" "length (op_row A) = length (op_S A)"
  shows "out_guvec (zeros (length data) (output_width A)) data (op_col A) (op_row A) (op_S A)
           shape_arr = apply_A A sched data False"
  using assms by (simp add: out_guvec_sparse_dot apply_A_def zeros_def)

text \<open>
  The serial, the row-parallel and the chunked computation agree: for every schedule that
  \<open>prange\<close> can produce and every split of the batch into blocks they have the same
  outcome, value for value in any arithmetic, and row \<open>j\<close> of the output belongs to row
  \<open>j\<close> of the batch.
\<close>

lemma prange_and_chunks_agree:
  fixes A :: "'a::{zero,plus,times} operator"
  assumes "prange_schedule (length data) (length (op_S A)) sched"
    and "concat blocks = data"
  shows "apply_A A sched data True = apply_A A [] data False \<and>
         apply_ufunc (\<lambda>block. apply_A A [] block False) blocks = apply_A A [] data False \<and>
         (\<forall>out. apply_A A [] data False = Some out \<longrightarrow>
            length out = length data \<and>
            (\<forall>j<length data. apply_A A [] [data ! j] False = Some [out ! j]))"
  using apply_A_parallel [OF assms(1), of "[]"] apply_A_chunks [of A "[]" blocks]
    apply_A_row_position [of A "[]" data]
  unfolding assms(2) by blast

lemma prange_and_chunks_agree_example:
  "prange_schedule (length [[1, 1], [2, 0 :: real]]) (length (op_S scenario_operator))
     [(1, 0), (0, 0), (0, 1), (1, 1), (1, 2), (0, 2)] \<and>
   concat [[[1, 1]], [[2, 0]]] = [[1, 1], [2, 0 :: real]] \<and>
   apply_A scenario_operator [] [[1, 1], [2, 0]] False = Some [[3, 3], [2, 0]] \<and>
   apply_A scenario_operator [(1, 0), (0, 0), (0, 1), (1, 1), (1, 2), (0, 2)]
     [[1, 1], [2, 0]] True = Some [[3, 3], [2, 0]] \<and>
   apply_ufunc (\<lambda>block. apply_A scenario_operator [] block False) [[[1, 1]], [[2, 0]]]
     = Some [[3, 3], [2, 0]]"
proof -
  let ?sched = "[(1, 0), (0, 0), (0, 1), (1, 1), (1, 2), (0, 2)] :: schedule"
  have sched: "prange_schedule (length [[1, 1], [2, 0 :: real]])
                 (length (op_S scenario_operator)) ?sched"
    by code_simp
  have blocks: "concat [[[1, 1]], [[2, 0]]] = [[1, 1], [2, 0 :: real]]"
    by simp
  have run: "apply_A scenario_operator [] [[1, 1], [2, 0]] False = Some [[3, 3], [2, 0]]"
    by code_simp
  have par: "apply_A scenario_operator ?sched [[1, 1], [2, 0]] True =
             apply_A scenario_operator [] [[1, 1], [2, 0]] False"
    and chunked: "apply_ufunc (\<lambda>block. apply_A scenario_operator [] block False)
                    [[[1, 1]], [[2, 0]]] =
                  apply_A scenario_operator [] [[1, 1], [2, 0]] False"
    using prange_and_chunks_agree [OF sched blocks]
    by (rule conjunct1, rule conjunct2 [THEN conjunct1])
  show ?thesis
    using sched blocks run par chunked by (simp only: simp_thms)
qed

section \<open>Claims\<close>

text \<open>
  C1. For a valid operator and a batch of shape \<open>(n, input_width)\<close>, \<open>apply_A\<close> runs the
  accumulation statement for every row \<open>j\<close> and every nonzero \<open>i\<close>, rows in ascending
  order and nonzeros in ascending order within a row, on a zero-initialised array of
  shape \<open>(n, output_width)\<close>. It returns an array of that shape whose cell \<open>[j, r]\<close> is the
  sum, taken from zero in ascending order of \<open>i\<close>, of \<open>batch[j, col[i]] * S[i]\<close> over the
  nonzeros \<open>i\<close> with \<open>row[i] = r\<close>. No law of arithmetic is used.
\<close>

theorem apply_A_accumulates:
  fixes A :: "'a::{zero,plus,times} operator"
  assumes "valid_operator A" and "has_shape batch n (input_width A)"
  shows "apply_A A sched batch False =
           for_loop (serial_steps n (length (op_S A)))
             (\<lambda>p. kernel_stmt batch (op_col A) (op_row A) (op_S A) (fst p) (snd p))
             (zeros n (output_width A)) \<and>
         (\<exists>out. apply_A A sched batch False = Some out \<and> has_shape out n (output_width A) \<and>
            (\<forall>j<n. \<forall>r<output_width A.
               out ! j ! r =
                 foldl (+) 0 (contributions (batch ! j) (op_col A) (op_row A) (op_S A)
                                [0..<length (op_S A)] r)))"
proof -
  have n: "length batch = n"
    using assms(2) by (rule has_shape_length)
  let ?out = "map (\<lambda>j. map (\<lambda>r. foldl (+) (zeros n (output_width A) ! j ! r)
                 (contributions (batch ! j) (op_col A) (op_row A) (op_S A)
                    [0..<length (op_S A)] r)) [0..<output_width A]) [0..<n]"
  have "apply_A A sched batch False = Some ?out"
    using sparse_dot_cells [OF assms has_shape_zeros] by (simp add: apply_A_def n)
  moreover have "has_shape ?out n (output_width A)"
    by (rule has_shape_map)
  moreover have "?out ! j ! r =
      foldl (+) 0 (contributions (batch ! j) (op_col A) (op_row A) (op_S A)
                     [0..<length (op_S A)] r)" if "j < n" "r < output_width A" for j r
    using that by (simp add: zeros_def)
  ultimately show ?thesis
    using apply_A_steps [of A sched batch] unfolding n by blast
qed

theorem apply_A_accumulates_witness:
  "valid_operator scenario_operator \<and>
   has_shape scenario_batch 1 (input_width scenario_operator) \<and>
   (\<exists>out. apply_A scenario_operator [] scenario_batch False = Some out \<and>
      has_shape out 1 (output_width scenario_operator) \<and>
      (\<forall>j<1. \<forall>r<output_width scenario_operator.
         out ! j ! r =
           foldl (+) 0 (contributions (scenario_batch ! j) (op_col scenario_operator)
                          (op_row scenario_operator) (op_S scenario_operator)
                          [0..<length (op_S scenario_operator)] r)))"
proof -
  have valid: "valid_operator scenario_operator"
    by code_simp
  have shape: "has_shape scenario_batch 1 (input_width scenario_operator)"
    by code_simp
  from apply_A_accumulates [OF valid shape, of "[]"] valid shape show ?thesis
    by (intro conjI) (erule conjE, assumption)+
qed

text \<open>
  C2, as stated, fails. The scenario operator has \<open>input_width = 2\<close>; on a batch with three
  columns \<open>apply_A\<close> raises nothing and returns an output.
\<close>

theorem shape_mismatch_counterexample:
  "valid_operator scenario_operator \<and> input_width scenario_operator = 2 \<and>
   has_shape [[1, 1, 9 :: real]] 1 3 \<and>
   apply_A scenario_operator [] [[1, 1, 9]] False = Some [[3, 3]]"
  by code_simp

text \<open>
  C2, amended: \<open>apply_A\<close> never reads \<open>input_width\<close> and has no shape check. Its outcome
  does not change when \<open>input_width\<close> is replaced by any other value, in either mode; and
  on a batch of shape \<open>(n, m)\<close>, for any \<open>m\<close>, it returns an output of shape
  \<open>(n, output_width)\<close> whenever the operator's arrays have equal length, every \<open>col[i]\<close>
  lies in \<open>[0, m)\<close> and every \<open>row[i]\<close> in \<open>[0, output_width)\<close>. With \<open>m = input_width\<close>
  this is the case of a valid operator and a batch of matching width.
\<close>

theorem apply_A_has_no_shape_check:
  fixes A :: "'a::{zero,plus,times} operator"
  shows "apply_A (A\<lparr>input_width := w\<rparr>) sched batch parallel = apply_A A sched batch parallel \<and>
         (valid_operator (A\<lparr>input_width := m\<rparr>) \<and> has_shape batch n m \<longrightarrow>
            (\<exists>out. apply_A A sched batch False = Some out \<and> has_shape out n (output_width A)))"
proof (intro conjI impI)
  show "apply_A (A\<lparr>input_width := w\<rparr>) sched batch parallel = apply_A A sched batch parallel"
    by (rule apply_A_input_width)
next
  assume "valid_operator (A\<lparr>input_width := m\<rparr>) \<and> has_shape batch n m"
  then have valid: "valid_operator (A\<lparr>input_width := m\<rparr>)"
    and shape: "has_shape batch n (input_width (A\<lparr>input_width := m\<rparr>))"
    by simp_all
  let ?out = "map (\<lambda>j. map (\<lambda>r. foldl (+) 0
                (contributions (batch ! j) (op_col A) (op_row A) (op_S A)
                   [0..<length (op_S A)] r)) [0..<output_width A]) [0..<n]"
  have "apply_A (A\<lparr>input_width := m\<rparr>) sched batch False = Some ?out"
    using apply_A_cells [OF valid shape, of sched] by simp
  then have "apply_A A sched batch False = Some ?out"
    unfolding apply_A_input_width .
  moreover have "has_shape ?out n (output_width A)"
    by (rule has_shape_map)
  ultimately show "\<exists>out. apply_A A sched batch False = Some out \<and>
                     has_shape out n (output_width A)"
    by blast
qed

theorem apply_A_has_no_shape_check_witness:
  "valid_operator (scenario_operator\<lparr>input_width := 3\<rparr>) \<and> has_shape [[1, 1, 9 :: real]] 1 3 \<and>
   input_width scenario_operator \<noteq> 3 \<and>
   (\<exists>out. apply_A scenario_operator [] [[1, 1, 9]] False = Some out \<and>
      has_shape out 1 (output_width scenario_operator))"
proof -
  have valid: "valid_operator (scenario_operator\<lparr>input_width := 3\<rparr>)"
    by code_simp
  have shape: "has_shape [[1, 1, 9 :: real]] 1 3"
    by code_simp
  have width: "input_width scenario_operator \<noteq> 3"
    by code_simp
  from apply_A_has_no_shape_check [where A = scenario_operator and m = 3 and n = 1
      and sched = "[]" and batch = "[[1, 1, 9]]"]
  have "valid_operator (scenario_operator\<lparr>input_width := 3\<rparr>) \<and> has_shape [[1, 1, 9 :: real]] 1 3
        \<longrightarrow> (\<exists>out. apply_A scenario_operator [] [[1, 1, 9]] False = Some out \<and>
               has_shape out 1 (output_width scenario_operator))"
    by (rule conjunct2)
  with valid shape width show ?thesis
    by (intro conjI) (assumption | (erule mp, rule conjI, assumption, assumption))+
qed

text \<open>
  C3. Chunk invariance. For every list of blocks of consecutive rows, applying the
  operator to each block and concatenating the outputs in block order has the same
  outcome as applying it to the whole batch, the same array or the same failure. When
  the batch is accepted, the output has one row per input row and row \<open>j\<close> of it is the
  output of row \<open>j\<close> of the batch taken alone: every output row is at the position of its
  input row.
\<close>

theorem chunk_invariance:
  fixes A :: "'a::{zero,plus,times} operator"
  shows "apply_ufunc (\<lambda>block. apply_A A sched block False) blocks =
           apply_A A sched (concat blocks) False \<and>
         (\<forall>out. apply_A A sched (concat blocks) False = Some out \<longrightarrow>
            length out = length (concat blocks) \<and>
            (\<forall>j<length (concat blocks).
               apply_A A sched [concat blocks ! j] False = Some [out ! j]))"
  using apply_A_chunks [of A sched blocks] apply_A_row_position [of A sched "concat blocks"]
  by blast

theorem chunk_invariance_witness:
  "apply_A scenario_operator [] (concat [[[1, 1]], [[2, 0], [0, 1]]]) False
     = Some [[3, 3], [2, 0], [2, 3]] \<and>
   apply_ufunc (\<lambda>block. apply_A scenario_operator [] block False) [[[1, 1]], [[2, 0], [0, 1]]]
     = Some [[3, 3], [2, 0], [2, 3]] \<and>
   apply_A scenario_operator [] [concat [[[1, 1]], [[2, 0], [0, 1]]] ! 2] False
     = Some [[[3, 3], [2, 0], [2, 3]] ! 2]"
proof -
  let ?blocks = "[[[1, 1]], [[2, 0], [0, 1 :: real]]]"
  have run: "apply_A scenario_operator [] (concat ?blocks) False = Some [[3, 3], [2, 0], [2, 3]]"
    by code_simp
  have len: "2 < length (concat ?blocks)"
    by simp
  have inv: "apply_ufunc (\<lambda>block. apply_A scenario_operator [] block False) ?blocks =
               apply_A scenario_operator [] (concat ?blocks) False"
    and pos: "\<forall>out. apply_A scenario_operator [] (concat ?blocks) False = Some out \<longrightarrow>
            length out = length (concat ?blocks) \<and>
            (\<forall>j<length (concat ?blocks).
               apply_A scenario_operator [] [concat ?blocks ! j] False = Some [out ! j])"
    using chunk_invariance [of scenario_operator "[]" ?blocks] by (rule conjunct1, rule conjunct2)
  from pos run len
  have "apply_A scenario_operator [] [concat ?blocks ! 2] False = Some [[[3, 3], [2, 0], [2, 3]] ! 2]"
    by blast
  with run inv show ?thesis
    by (simp only: simp_thms)
qed

text \<open>
  C4. The vectorised path breaks the claim. \<open>apply_A\<close> zeroes its output before the
  kernel runs; the call of \<open>sparse_dot_guvec\<close> passes no output, and its kernel adds to
  an array that nothing has zeroed. On the specification's scenario, when the memory
  of the allocated row holds \<open>[7, 0]\<close>, the call returns \<open>[[10, 3]]\<close> and the reference
  returns \<open>[[3, 3]]\<close>; the notebook's own check \<open>np.array_equal(out_numba, out_guvec)\<close>
  expects them equal. The call gives the reference result when the memory happens to
  hold zeros.
\<close>

theorem out_guvec_differs_from_reference:
  "apply_A scenario_operator [] scenario_batch False = Some [[3, 3]] \<and>
   out_guvec [[7, 0]] scenario_batch (op_col scenario_operator) (op_row scenario_operator)
     (op_S scenario_operator) [0, 1] = Some [[10, 3]] \<and>
   out_guvec [[0, 0]] scenario_batch (op_col scenario_operator) (op_row scenario_operator)
     (op_S scenario_operator) [0, 1] = Some [[3, 3]]"
  by code_simp

text \<open>
  C5, as stated, fails. The operator with the single nonzero \<open>(row 0, col 0, weight 1)\<close>
  on grids of width 1 is an identity-like permutation. For the batch \<open>[[-0.0]]\<close> the cell
  is computed as \<open>0.0 + -0.0 * 1.0\<close>, which is \<open>+0.0\<close>: the output compares equal to the
  batch and is not the batch bit for bit.
\<close>

theorem identity_negative_zero_counterexample:
  "valid_operator \<lparr>op_col = [0], op_row = [0], op_S = [1 :: sreal],
                   input_width = 1, output_width = 1\<rparr> \<and>
   identity_like \<lparr>op_col = [0], op_row = [0], op_S = [1 :: sreal],
                   input_width = 1, output_width = 1\<rparr> \<and>
   has_shape [[NegZero]] 1 1 \<and>
   apply_A \<lparr>op_col = [0], op_row = [0], op_S = [1 :: sreal], input_width = 1, output_width = 1\<rparr>
     [] [[NegZero]] False = Some [[Num 0]] \<and>
   apply_A \<lparr>op_col = [0], op_row = [0], op_S = [1 :: sreal], input_width = 1, output_width = 1\<rparr>
     [] [[NegZero]] False \<noteq> Some [[NegZero]]"
  by code_simp

text \<open>
  C5, amended: for an identity-like permutation and a batch of shape \<open>(n, input_width)\<close>,
  every cell of the output is \<open>0 + batch[j, r] * 1\<close> as the arithmetic computes it, in any
  arithmetic whatever. So \<open>apply_A\<close> returns the batch itself, bit for bit, on every
  batch whose entries \<open>x\<close> satisfy \<open>0 + x * 1 = x\<close>; in \<open>float64\<close> that leaves out \<open>-0.0\<close>,
  which comes back as \<open>+0.0\<close>.
\<close>

theorem apply_A_identity:
  fixes A :: "'a::{zero,one,plus,times} operator"
  assumes "valid_operator A" and "identity_like A"
    and "has_shape batch n (input_width A)"
  shows "apply_A A sched batch False = Some (map (map (\<lambda>x. 0 + x * 1)) batch) \<and>
         (list_all (list_all (\<lambda>x. 0 + x * 1 = x)) batch \<longrightarrow>
            apply_A A sched batch False = Some batch)"
proof -
  have w: "input_width A = output_width A"
    using assms(2) by (simp add: identity_like_def)
  have len: "length batch = n" and rows: "\<And>j. j < n \<Longrightarrow> length (batch ! j) = output_width A"
    using assms(3) by (simp_all add: has_shape_def list_all_length w)
  have "map (\<lambda>r. foldl (+) 0 (contributions (batch ! j) (op_col A) (op_row A) (op_S A)
               [0..<length (op_S A)] r)) [0..<output_width A] =
        map (\<lambda>x. 0 + x * 1) (batch ! j)" if "j < n" for j
    using that by (intro nth_equalityI) (simp_all add: rows identity_cell [OF assms(1,2)])
  then have "map (\<lambda>j. map (\<lambda>r. foldl (+) 0 (contributions (batch ! j) (op_col A) (op_row A)
               (op_S A) [0..<length (op_S A)] r)) [0..<output_width A]) [0..<n] =
             map (map (\<lambda>x. 0 + x * 1)) batch"
    by (intro nth_equalityI) (simp_all add: len)
  then have run: "apply_A A sched batch False = Some (map (map (\<lambda>x. 0 + x * 1)) batch)"
    by (simp only: apply_A_cells [OF assms(1,3)])
  have "map (map (\<lambda>x. 0 + x * 1)) batch = batch"
    if "list_all (list_all (\<lambda>x. 0 + x * 1 = x)) batch"
    using that by (intro map_idI) (simp_all add: list_all_iff)
  with run show ?thesis by simp
qed

theorem apply_A_identity_witness:
  "valid_operator \<lparr>op_col = [1, 0], op_row = [1, 0], op_S = [1, 1 :: sreal],
                   input_width = 2, output_width = 2\<rparr> \<and>
   identity_like \<lparr>op_col = [1, 0], op_row = [1, 0], op_S = [1, 1 :: sreal],
                   input_width = 2, output_width = 2\<rparr> \<and>
   has_shape [[Num 5, Num 7]] 1 2 \<and>
   list_all (list_all (\<lambda>x. 0 + x * 1 = x)) [[Num 5, Num 7]] \<and>
   apply_A \<lparr>op_col = [1, 0], op_row = [1, 0], op_S = [1, 1 :: sreal],
             input_width = 2, output_width = 2\<rparr> [] [[Num 5, Num 7]] False
     = Some [[Num 5, Num 7]]"
proof -
  let ?A = "\<lparr>op_col = [1, 0], op_row = [1, 0], op_S = [1, 1 :: sreal],
             input_width = 2, output_width = 2\<rparr>"
  have valid: "valid_operator ?A"
    by code_simp
  have ident: "identity_like ?A"
    by code_simp
  have shape: "has_shape [[Num 5, Num 7]] 1 (input_width ?A)"
    by code_simp
  have shape': "has_shape [[Num 5, Num 7]] 1 2"
    by code_simp
  have fixed: "list_all (list_all (\<lambda>x. 0 + x * 1 = x)) [[Num 5, Num 7]]"
    by code_simp
  have "apply_A ?A [] [[Num 5, Num 7]] False = Some [[Num 5, Num 7]]"
    using apply_A_identity [OF valid ident shape, of "[]"] fixed by (elim conjE impE) assumption
  with valid ident shape' fixed show ?thesis
    by (intro conjI) assumption+
qed

text \<open>
  C6. Linearity in the batch, over exact arithmetic (any semiring). For a valid operator
  and two batches of shape \<open>(n, input_width)\<close>, \<open>apply_A\<close> succeeds on both and on every
  linear combination \<open>a * batch1 + b * batch2\<close>, and the output for the combination is
  the same linear combination of the two outputs. With \<open>float64\<close> the two sides round
  differently and agree only up to rounding, which the model does not express.
\<close>

theorem apply_A_linear:
  fixes A :: "'a::semiring_0 operator"
  assumes "valid_operator A"
    and "has_shape batch1 n (input_width A)" and "has_shape batch2 n (input_width A)"
  shows "\<exists>out1 out2.
           apply_A A sched batch1 False = Some out1 \<and>
           apply_A A sched batch2 False = Some out2 \<and>
           apply_A A sched (lincomb a batch1 b batch2) False = Some (lincomb a out1 b out2)"
proof -
  let ?cells = "\<lambda>batch. map (\<lambda>j. map (\<lambda>r. foldl (+) 0
                   (contributions (batch ! j) (op_col A) (op_row A) (op_S A)
                      [0..<length (op_S A)] r)) [0..<output_width A]) [0..<n]"
  have out1: "apply_A A sched batch1 False = Some (?cells batch1)"
    and out2: "apply_A A sched batch2 False = Some (?cells batch2)"
    by (rule apply_A_cells [OF assms(1,2)], rule apply_A_cells [OF assms(1,3)])
  have "apply_A A sched (lincomb a batch1 b batch2) False = Some (?cells (lincomb a batch1 b batch2))"
    by (rule apply_A_cells [OF assms(1) has_shape_lincomb [OF assms(2,3)]])
  moreover have "?cells (lincomb a batch1 b batch2) = lincomb a (?cells batch1) b (?cells batch2)"
  proof (rule nth_equalityI)
    show "length (?cells (lincomb a batch1 b batch2)) =
          length (lincomb a (?cells batch1) b (?cells batch2))"
      by (simp add: lincomb_def)
  next
    fix j assume "j < length (?cells (lincomb a batch1 b batch2))"
    then have j: "j < n" by simp
    have "map (\<lambda>r. foldl (+) 0 (contributions (lincomb a batch1 b batch2 ! j) (op_col A)
                  (op_row A) (op_S A) [0..<length (op_S A)] r)) [0..<output_width A] =
          map2 (\<lambda>u v. a * u + b * v) (?cells batch1 ! j) (?cells batch2 ! j)"
      using j by (intro nth_equalityI) (simp_all add: contributions_lincomb [OF assms j])
    then show "?cells (lincomb a batch1 b batch2) ! j =
               lincomb a (?cells batch1) b (?cells batch2) ! j"
      using j by (simp add: lincomb_def)
  qed
  ultimately show ?thesis
    using out1 out2 by simp
qed

theorem apply_A_linear_witness:
  "valid_operator scenario_operator \<and>
   has_shape [[1, 1], [2, 0 :: real]] 2 (input_width scenario_operator) \<and>
   has_shape [[0, 1], [1, 1 :: real]] 2 (input_width scenario_operator) \<and>
   apply_A scenario_operator [] [[1, 1], [2, 0]] False = Some [[3, 3], [2, 0]] \<and>
   apply_A scenario_operator [] [[0, 1], [1, 1]] False = Some [[2, 3], [3, 3]] \<and>
   apply_A scenario_operator [] (lincomb 2 [[1, 1], [2, 0]] 5 [[0, 1], [1, 1]]) False
     = Some (lincomb 2 [[3, 3], [2, 0]] 5 [[2, 3], [3, 3]])"
proof -
  have valid: "valid_operator scenario_operator"
    by code_simp
  have s1: "has_shape [[1, 1], [2, 0 :: real]] 2 (input_width scenario_operator)"
    by code_simp
  have s2: "has_shape [[0, 1], [1, 1 :: real]] 2 (input_width scenario_operator)"
    by code_simp
  have r1: "apply_A scenario_operator [] [[1, 1], [2, 0]] False = Some [[3, 3], [2, 0]]"
    by code_simp
  have r2: "apply_A scenario_operator [] [[0, 1], [1, 1]] False = Some [[2, 3], [3, 3]]"
    by code_simp
  from apply_A_linear [OF valid s1 s2, of "[]" 2 5]
  have "apply_A scenario_operator [] (lincomb 2 [[1, 1], [2, 0]] 5 [[0, 1], [1, 1]]) False
          = Some (lincomb 2 [[3, 3], [2, 0]] 5 [[2, 3], [3, 3]])"
    unfolding r1 r2 by blast
  with valid s1 s2 r1 r2 show ?thesis
    by (intro conjI) assumption+
qed

text \<open>
  C7. On the specification's scenario \<open>apply_A\<close> returns \<open>[[3, 3]]\<close>: the two nonzeros
  with destination 0 are summed (\<open>1 * 1 + 1 * 2\<close>), the third gives \<open>1 * 3\<close>. The values
  are small integers, for which the rounding of \<open>float64\<close> is exact, so the result read in
  the reals is the result the code computes.
\<close>

theorem scenario_result:
  "apply_A scenario_operator sched scenario_batch False = Some [[3, 3]]"
proof -
  have "apply_A scenario_operator [] scenario_batch False = Some [[3, 3]]"
    by code_simp
  then show ?thesis
    by (simp only: apply_A_serial_sched [of _ sched])
qed

text \<open>
  C8, as stated, fails. A file whose \<open>col\<close> holds the external index 0 (the valid external
  indexes are \<open>1, \<dots>, input_width\<close>) is loaded without any error: the operator is built
  with \<open>col = [-1]\<close>, the invariant does not hold for it, and \<open>apply_A\<close> accepts it, the
  negative index counting from the end of the row.
\<close>

theorem load_operator_counterexample:
  "op_col (load_operator \<lparr>n_s = 1, ds_col = [0], ds_row = [1], ds_S = [1 :: real]\<rparr> 1 1) = [- 1] \<and>
   \<not> valid_operator (load_operator \<lparr>n_s = 1, ds_col = [0], ds_row = [1], ds_S = [1 :: real]\<rparr> 1 1) \<and>
   apply_A (load_operator \<lparr>n_s = 1, ds_col = [0], ds_row = [1], ds_S = [1 :: real]\<rparr> 1 1)
     [] [[5]] False = Some [[5]]"
  by code_simp

text \<open>
  C8, amended: loading validates nothing and cannot fail. It subtracts 1 from every entry
  of \<open>col\<close> and of \<open>row\<close> and takes \<open>S\<close> as it is. The operator it builds satisfies the
  invariant whenever the three arrays of the file have equal length and every external
  index lies in \<open>[1, input_width]\<close>, respectively \<open>[1, output_width]\<close>.
\<close>

theorem load_operator_unchecked:
  "op_col (load_operator ds n_in n_out) = map (\<lambda>c. c - 1) (ds_col ds) \<and>
   op_row (load_operator ds n_in n_out) = map (\<lambda>r. r - 1) (ds_row ds) \<and>
   op_S (load_operator ds n_in n_out) = ds_S ds \<and>
   (length (ds_col ds) = length (ds_S ds) \<and> length (ds_row ds) = length (ds_S ds) \<and>
    list_all (\<lambda>c. 1 \<le> sint c \<and> sint c \<le> int n_in) (ds_col ds) \<and>
    list_all (\<lambda>r. 1 \<le> sint r \<and> sint r \<le> int n_out) (ds_row ds)
    \<longrightarrow> valid_operator (load_operator ds n_in n_out))"
  by (auto simp: load_operator_def valid_operator_def list_all_iff sint_minus_one)

theorem load_operator_unchecked_witness:
  "length (ds_col \<lparr>n_s = 2, ds_col = [1, 2], ds_row = [1, 1], ds_S = [1, 2 :: real]\<rparr>) =
     length (ds_S \<lparr>n_s = 2, ds_col = [1, 2], ds_row = [1, 1], ds_S = [1, 2 :: real]\<rparr>) \<and>
   list_all (\<lambda>c. 1 \<le> sint c \<and> sint c \<le> int 2)
     (ds_col \<lparr>n_s = 2, ds_col = [1, 2], ds_row = [1, 1], ds_S = [1, 2 :: real]\<rparr>) \<and>
   list_all (\<lambda>r. 1 \<le> sint r \<and> sint r \<le> int 1)
     (ds_row \<lparr>n_s = 2, ds_col = [1, 2], ds_row = [1, 1], ds_S = [1, 2 :: real]\<rparr>) \<and>
   valid_operator
     (load_operator \<lparr>n_s = 2, ds_col = [1, 2], ds_row = [1, 1], ds_S = [1, 2 :: real]\<rparr> 2 1) \<and>
   op_col (load_operator \<lparr>n_s = 2, ds_col = [1, 2], ds_row = [1, 1], ds_S = [1, 2 :: real]\<rparr> 2 1)
     = [0, 1]"
proof -
  let ?ds = "\<lparr>n_s = 2, ds_col = [1, 2], ds_row = [1, 1], ds_S = [1, 2 :: real]\<rparr>"
  have l1: "length (ds_col ?ds) = length (ds_S ?ds)"
    by simp
  have l2: "length (ds_row ?ds) = length (ds_S ?ds)"
    by simp
  have c: "list_all (\<lambda>c. 1 \<le> sint c \<and> sint c \<le> int 2) (ds_col ?ds)"
    by simp
  have r: "list_all (\<lambda>r. 1 \<le> sint r \<and> sint r \<le> int 1) (ds_row ?ds)"
    by simp
  have "valid_operator (load_operator ?ds 2 1)"
    using load_operator_unchecked [of ?ds 2 1] l1 l2 c r by blast
  moreover have "op_col (load_operator ?ds 2 1) = [0, 1]"
    using load_operator_unchecked [of ?ds 2 1] by simp
  ultimately show ?thesis
    using l1 c r by (intro conjI) assumption+
qed



text \<open>
  C10. The output depends on the batch only through the columns the operator names. Two
  batches of the same shape \<open>(n, m)\<close> that agree, in every row, at every position an
  entry of \<open>col\<close> selects give the same outcome of \<open>apply_A\<close>, the same array or the same
  failure, in serial and in parallel mode. Nothing is assumed about the operator.
\<close>

theorem apply_A_reads_only_col:
  fixes A :: "'a::{zero,plus,times} operator"
  assumes "has_shape batch1 n m" and "has_shape batch2 n m"
    and "\<forall>j<n. \<forall>c\<in>set (op_col A). \<forall>k.
           index m (sint c) = Some k \<longrightarrow> batch1 ! j ! k = batch2 ! j ! k"
  shows "apply_A A sched batch1 parallel = apply_A A sched batch2 parallel"
proof -
  have stmt: "kernel_stmt batch1 (op_col A) (op_row A) (op_S A) j i =
              kernel_stmt batch2 (op_col A) (op_row A) (op_S A) j i" for j i
    using assms by (intro ext kernel_stmt_data_cong)
  have "length batch1 = length batch2"
    using assms(1,2) by (simp add: has_shape_def)
  then show ?thesis
    by (simp add: apply_A_def sparse_dot_def sparse_dot_pa_def stmt)
qed

theorem apply_A_reads_only_col_witness:
  "has_shape [[1, 7, 2], [3, 8, 4 :: real]] 2 3 \<and> has_shape [[1, 9, 2], [3, 0, 4 :: real]] 2 3 \<and>
   apply_A \<lparr>op_col = [0, 2], op_row = [1, 0], op_S = [1, 1], input_width = 3, output_width = 2\<rparr>
     [] [[1, 7, 2], [3, 8, 4 :: real]] False =
   apply_A \<lparr>op_col = [0, 2], op_row = [1, 0], op_S = [1, 1], input_width = 3, output_width = 2\<rparr>
     [] [[1, 9, 2], [3, 0, 4]] False \<and>
   apply_A \<lparr>op_col = [0, 2], op_row = [1, 0], op_S = [1, 1], input_width = 3, output_width = 2\<rparr>
     [] [[1, 9, 2], [3, 0, 4 :: real]] False = Some [[2, 1], [4, 3]]"
proof -
  let ?A = "\<lparr>op_col = [0, 2], op_row = [1, 0], op_S = [1, 1 :: real],
             input_width = 3, output_width = 2\<rparr>"
  have s1: "has_shape [[1, 7, 2], [3, 8, 4 :: real]] 2 3"
    by code_simp
  have s2: "has_shape [[1, 9, 2], [3, 0, 4 :: real]] 2 3"
    by code_simp
  have agree: "\<forall>j<2. \<forall>c\<in>set (op_col ?A). \<forall>k. index 3 (sint c) = Some k \<longrightarrow>
                 [[1, 7, 2], [3, 8, 4 :: real]] ! j ! k = [[1, 9, 2], [3, 0, 4]] ! j ! k"
    by (auto simp: index_def less_Suc_eq numeral_2_eq_2)
  have run: "apply_A ?A [] [[1, 9, 2], [3, 0, 4 :: real]] False = Some [[2, 1], [4, 3]]"
    by code_simp
  from apply_A_reads_only_col [OF s1 s2 agree, of "[]" False] s1 s2 run show ?thesis
    by (intro conjI) assumption+
qed

end
